theory Spec2Isabelle
  imports Complex_Main "HOL-Library.Extended_Nat" "HOL-Library.Multiset" "HOL-Library.Sublist"
begin

section \<open>Paths, files and the outside world\<close>

text \<open>
  A path is the string \<open>str(path)\<close> of a \<open>pathlib.Path\<close>, with \<open>/\<close> between its
  components. A file is what \<open>stat()\<close> reports of it: its size in bytes and its
  modification time (a float in Python; every finite float is a rational, and only the
  order of two times is ever used).
\<close>

type_synonym path = string

record stat_result =
  st_size :: nat
  st_mtime :: rat

definition name_of :: "path \<Rightarrow> string" where
  "name_of p = rev (takeWhile (\<lambda>c. c \<noteq> CHR ''/'') (rev p))"

definition parent :: "path \<Rightarrow> path" where
  "parent p = rev (drop 1 (dropWhile (\<lambda>c. c \<noteq> CHR ''/'') (rev p)))"

definition joinpath :: "path \<Rightarrow> path \<Rightarrow> path" where
  "joinpath a b = a @ ''/'' @ b"

definition relative_to :: "path \<Rightarrow> path \<Rightarrow> path" where
  "relative_to p base = drop (length base + 1) p"

text \<open>
  \<open>PurePath.suffix\<close>: the part of the name from its last dot on, when that dot is neither
  the first nor the last character of the name; \<open>with_suffix\<close> replaces it. (Python raises
  \<open>ValueError\<close> for a path whose name is empty; the output paths of this program end in
  the name of a file matched by \<open>*.pdf\<close>.)
\<close>

definition suffix_of :: "path \<Rightarrow> string" where
  "suffix_of p =
     (let n = name_of p; ext = rev (takeWhile (\<lambda>c. c \<noteq> CHR ''.'') (rev n))
      in if CHR ''.'' \<in> set n \<and> ext \<noteq> [] \<and> length ext + 1 < length n
         then CHR ''.'' # ext else [])"

definition with_suffix :: "path \<Rightarrow> string \<Rightarrow> path" where
  "with_suffix p new_suffix = take (length p - length (suffix_of p)) p @ new_suffix"

text \<open>
  The external command, as \<open>subprocess.run(cmd, check=True, capture_output=True)\<close> sees
  it: it exits with status 0 after writing a file at its output path, it exits with a
  nonzero status (\<open>CalledProcessError\<close>), the executable is missing
  (\<open>FileNotFoundError\<close>), or anything else goes wrong. The command line is fixed but for
  the quality and the two paths. A \<open>CalledProcessError\<close> carries the captured standard
  error, of which the handlers use \<open>e.stderr.decode()\<close> only: the argument is the decoded
  text, or \<open>None\<close> when the bytes are not UTF-8 and \<open>decode\<close> raises
  \<open>UnicodeDecodeError\<close>.
\<close>

record cmd =
  jpeg_quality :: int
  cmd_input :: path
  cmd_output :: path

datatype run_result =
  Completed stat_result
  | CalledProcessError "string option"
  | FileNotFoundError
  | OtherException

text \<open>The exceptions that leave \<open>compress_pdf\<close>.\<close>

datatype error = UnicodeDecodeError

text \<open>
  The environment of a job: what the \<open>n\<close>-th invocation of the command does (\<open>n\<close> counts
  the invocations made before it), how Python prints a float (\<open>str(target_size_mb)\<close>),
  whether \<open>mkdir(parents=True, exist_ok=True)\<close> succeeds on a directory, and whether
  \<open>exists()\<close> returns for a path (it raises when the operating system refuses to look at
  it, for lack of permission say).
\<close>

record env =
  run :: "nat \<Rightarrow> cmd \<Rightarrow> run_result"
  str_float :: "rat \<Rightarrow> string"
  mkdir :: "path \<Rightarrow> bool"
  exists_returns :: "path \<Rightarrow> bool"

text \<open>
  The state a job changes: the files, the lines appended to \<open>LOG_FILE\<close>, the
  invocations of the command so far and the moves made by \<open>shutil.move\<close>, both in order.
\<close>

record state =
  fs :: "path \<rightharpoonup> stat_result"
  log_file :: "string list"
  calls :: "cmd list"
  moves :: "(path \<times> path) list"

definition subprocess_run :: "env \<Rightarrow> cmd \<Rightarrow> state \<Rightarrow> run_result \<times> state" where
  "subprocess_run e c s =
     (let r = run e (length (calls s)) c;
          s1 = s\<lparr>calls := calls s @ [c]\<rparr>
      in case r of
           Completed f \<Rightarrow> (r, s1\<lparr>fs := (fs s1)(cmd_output c \<mapsto> f)\<rparr>)
         | _ \<Rightarrow> (r, s1))"

definition unlink :: "path \<Rightarrow> state \<Rightarrow> state" where
  "unlink p s = s\<lparr>fs := (fs s)(p := None)\<rparr>"

definition move :: "path \<Rightarrow> path \<Rightarrow> state \<Rightarrow> state" where
  "move a b s = s\<lparr>fs := (fs s)(a := None, b := fs s a), moves := moves s @ [(a, b)]\<rparr>"

section \<open>The log line\<close>

text \<open>
  \<open>f"{size/1024/1024:.2f}"\<close>: for a size below \<open>2^53\<close> both divisions are exact, and
  the format rounds the exact value to two decimals, a tie to the even neighbour.
\<close>

definition digit :: "nat \<Rightarrow> char" where
  "digit d = ''0123456789'' ! (d mod 10)"

fun str_nat :: "nat \<Rightarrow> string" where
  "str_nat n = (if n < 10 then [digit n] else str_nat (n div 10) @ [digit (n mod 10)])"

declare str_nat.simps [simp del]

definition round_half_even :: "nat \<Rightarrow> nat \<Rightarrow> nat" where
  "round_half_even n d =
     (let q = n div d; r = n mod d
      in if d < 2 * r \<or> (2 * r = d \<and> odd q) then q + 1 else q)"

definition fmt_mb :: "nat \<Rightarrow> string" where
  "fmt_mb size_bytes =
     (let h = round_half_even (size_bytes * 100) (1024 * 1024)
      in str_nat (h div 100) @ ''.'' @ [digit (h div 10), digit h])"

definition log_line :: "env \<Rightarrow> path \<Rightarrow> nat \<Rightarrow> rat \<Rightarrow> string" where
  "log_line e input_path size_bytes target_size_mb =
     input_path @ '' - Compressed to '' @ fmt_mb size_bytes @ '' MB (target: ''
       @ str_float e target_size_mb @ '' MB) (Best Effort)'' @ [CHR 0x0A]"

section \<open>compress_pdf\<close>

text \<open>
  The \<open>while\<close> loop of \<open>compress_pdf\<close> (lines 26 to 79). It ends in one of three ways:
  its condition fails, it reaches \<open>break\<close> (after \<open>success = True\<close>), an \<open>except\<close>
  clause returns from the function, or an exception leaves the function: the handler of
  \<open>CalledProcessError\<close> evaluates \<open>e.stderr.decode()\<close> at line 66, before it removes the
  temporary file and lowers the quality, and an exception raised in a handler is not
  caught by the other clauses of the same \<open>try\<close>. The loop assigns \<open>current_quality\<close>,
  \<open>best_quality_so_far\<close> and \<open>min_size_so_far\<close>, and nothing else that is read after it:
  \<open>success\<close> is written at line 48 and never read, and \<open>final_success\<close> is not assigned.
\<close>

datatype loop_exit = Exhausted | Break | Return bool | Raise error

function quality_loop ::
  "env \<Rightarrow> path \<Rightarrow> path \<Rightarrow> path \<Rightarrow> rat \<Rightarrow> int \<Rightarrow> int \<Rightarrow> int \<Rightarrow> enat \<Rightarrow> state
    \<Rightarrow> loop_exit \<times> int \<times> state" where
  "quality_loop e input_path temp_output output_path target_size_mb min_quality
      current_quality best_quality_so_far min_size_so_far s =
     (if min_quality \<le> current_quality then
        (case subprocess_run e
                \<lparr>jpeg_quality = current_quality, cmd_input = input_path,
                 cmd_output = temp_output\<rparr> s of
           (Completed _, s1) \<Rightarrow>
             (case fs s1 temp_output of
                None \<Rightarrow> (Return False, best_quality_so_far, s1)
              | Some f \<Rightarrow>
                  (let current_size = st_size f in
                   if of_nat current_size \<le> target_size_mb * 1024 * 1024
                   then (Break, best_quality_so_far, move temp_output output_path s1)
                   else if enat current_size < min_size_so_far
                   then quality_loop e input_path temp_output output_path target_size_mb
                          min_quality (current_quality - 5) current_quality
                          (enat current_size) (unlink temp_output s1)
                   else quality_loop e input_path temp_output output_path target_size_mb
                          min_quality (current_quality - 5) best_quality_so_far
                          min_size_so_far (unlink temp_output s1)))
         | (CalledProcessError stderr, s1) \<Rightarrow>
             (case stderr of
                None \<Rightarrow> (Raise UnicodeDecodeError, best_quality_so_far, s1)
              | Some _ \<Rightarrow>
                  quality_loop e input_path temp_output output_path target_size_mb
                    min_quality (current_quality - 5) best_quality_so_far min_size_so_far
                    (unlink temp_output s1))
         | (FileNotFoundError, s1) \<Rightarrow> (Return False, best_quality_so_far, s1)
         | (OtherException, s1) \<Rightarrow> (Return False, best_quality_so_far, s1))
      else (Exhausted, best_quality_so_far, s))"
  by pat_completeness auto
termination
  by (relation "measure (\<lambda>(e, i, t, ou, tg, mn, q, b, m, s). nat (q - mn + 1))") auto

declare quality_loop.simps [simp del]

text \<open>
  The best-effort branch (lines 97 to 116): one more invocation, writing to the final
  output path, then the log line with the size of the file now at that path. The handler
  of \<open>CalledProcessError\<close> evaluates \<open>e.stderr.decode()\<close> here too (line 112).
\<close>

definition best_effort ::
  "env \<Rightarrow> path \<Rightarrow> path \<Rightarrow> rat \<Rightarrow> int \<Rightarrow> state \<Rightarrow> (error + bool) \<times> state" where
  "best_effort e input_path output_path target_size_mb best_quality_so_far s =
     (case subprocess_run e
             \<lparr>jpeg_quality = best_quality_so_far, cmd_input = input_path,
              cmd_output = output_path\<rparr> s of
        (Completed _, s1) \<Rightarrow>
          (case fs s1 output_path of
             None \<Rightarrow> (Inr False, s1)
           | Some f \<Rightarrow>
               (Inr True, s1\<lparr>log_file := log_file s1
                              @ [log_line e input_path (st_size f) target_size_mb]\<rparr>))
      | (CalledProcessError stderr, s1) \<Rightarrow>
          (case stderr of
             None \<Rightarrow> (Inl UnicodeDecodeError, s1)
           | Some _ \<Rightarrow> (Inr False, s1))
      | (FileNotFoundError, s1) \<Rightarrow> (Inr False, s1)
      | (OtherException, s1) \<Rightarrow> (Inr False, s1))"

text \<open>
  \<open>compress_pdf\<close>. After the loop (line 96) the function tests \<open>final_success\<close>, which
  still has the value of line 18.
\<close>

definition compress_pdf ::
  "env \<Rightarrow> path \<Rightarrow> path \<Rightarrow> rat \<Rightarrow> int \<Rightarrow> int \<Rightarrow> state \<Rightarrow> (error + bool) \<times> state" where
  "compress_pdf e input_path output_path target_size_mb max_quality min_quality s =
     (let temp_output = with_suffix output_path ''.temp.pdf'';
          final_success = False
      in case quality_loop e input_path temp_output output_path target_size_mb
                min_quality max_quality (- 1) \<infinity> s of
           (Return b, _, s1) \<Rightarrow> (Inr b, s1)
         | (Raise x, _, s1) \<Rightarrow> (Inl x, s1)
         | (_, best_quality_so_far, s1) \<Rightarrow>
             if \<not> final_success \<and> best_quality_so_far \<noteq> - 1
             then best_effort e input_path output_path target_size_mb best_quality_so_far s1
             else if \<not> final_success \<and> best_quality_so_far = - 1
             then (Inr False, s1)
             else (Inr final_success, s1))"

section \<open>process_pdf\<close>

text \<open>
  The task of one file (lines 124 to 139). \<open>mkdir\<close> may raise, and so may \<open>exists\<close> and
  \<open>compress_pdf\<close>; the \<open>except\<close> clause of line 137 turns each into the result \<open>False\<close>. When the output path exists the task
  returns \<open>True\<close> at once. The program calls \<open>compress_pdf\<close> with its defaults only:
  1.5 MB, qualities from 40 down to 5.
\<close>

definition process_pdf :: "env \<Rightarrow> path \<Rightarrow> path \<Rightarrow> state \<Rightarrow> bool \<times> state" where
  "process_pdf e input_path output_path s =
     (if \<not> mkdir e (parent output_path) then (False, s)
      else if \<not> exists_returns e output_path then (False, s)
      else if fs s output_path \<noteq> None then (True, s)
      else case compress_pdf e input_path output_path (3 / 2) 40 5 s of
             (Inr b, s1) \<Rightarrow> (b, s1)
           | (Inl _, s1) \<Rightarrow> (False, s1))"

section \<open>find_and_compress_pdfs\<close>

text \<open>
  What the walker sees of the outside: whether the source directory exists, the files
  that \<open>glob('**/*.pdf')\<close> finds under it (each by its path relative to the source, with
  what \<open>stat()\<close> reports of it), what \<open>exists()\<close> and \<open>stat()\<close> report of an output path
  when the main thread looks at it, and the time at which each submitted task completes
  (\<open>as_completed\<close> yields the futures in that order).
\<close>

record world =
  source_exists :: "path \<Rightarrow> bool"
  listing :: "path \<Rightarrow> (path \<times> stat_result) list"
  stat :: "path \<rightharpoonup> stat_result"
  finish_time :: "path \<times> path \<Rightarrow> nat"

text \<open>What \<open>future.result()\<close> does: it returns the task's value or raises.\<close>

datatype future_result = Returned bool | Raised

record summary =
  printed_total :: nat
  printed_processed :: nat
  printed_failed :: nat
  printed_skipped :: nat

definition glob_pdf :: "world \<Rightarrow> path \<Rightarrow> (path \<times> stat_result) list" where
  "glob_pdf w source_path = map (\<lambda>(rel, st). (joinpath source_path rel, st)) (listing w source_path)"

text \<open>Line 170: the output exists and is not older than the input.\<close>

definition up_to_date :: "world \<Rightarrow> stat_result \<Rightarrow> path \<Rightarrow> bool" where
  "up_to_date w input_stat output_file =
     (case stat w output_file of
        None \<Rightarrow> False
      | Some output_stat \<Rightarrow> st_mtime input_stat \<le> st_mtime output_stat)"

text \<open>The first loop (lines 164 to 174): it counts the skipped files and submits the others.\<close>

fun dispatch ::
  "world \<Rightarrow> path \<Rightarrow> path \<Rightarrow> (path \<times> stat_result) list \<Rightarrow> nat \<Rightarrow> (path \<times> path) list
    \<Rightarrow> nat \<times> (path \<times> path) list" where
  "dispatch w source_path dest_path [] skipped_count futures = (skipped_count, futures)"
| "dispatch w source_path dest_path ((input_file, input_stat) # rest) skipped_count futures =
     (let relative_path = relative_to input_file source_path;
          output_file = joinpath dest_path relative_path
      in if up_to_date w input_stat output_file
         then dispatch w source_path dest_path rest (skipped_count + 1) futures
         else dispatch w source_path dest_path rest skipped_count
                (futures @ [(input_file, output_file)]))"

text \<open>The second loop (lines 176 to 189), over the results in completion order.\<close>

fun collect :: "future_result list \<Rightarrow> nat \<Rightarrow> nat \<Rightarrow> nat \<times> nat" where
  "collect [] processed_count failed_count = (processed_count, failed_count)"
| "collect (Returned True # rest) processed_count failed_count =
     collect rest (processed_count + 1) failed_count"
| "collect (Returned False # rest) processed_count failed_count =
     collect rest processed_count (failed_count + 1)"
| "collect (Raised # rest) processed_count failed_count =
     collect rest processed_count (failed_count + 1)"

definition as_completed :: "world \<Rightarrow> (path \<times> path) list \<Rightarrow> (path \<times> path) list" where
  "as_completed w futures = sort_key (finish_time w) futures"

text \<open>
  \<open>find_and_compress_pdfs\<close>. \<open>worker\<close> is what the future of a submitted task yields. The
  result is the summary printed at lines 191 to 195, or \<open>None\<close> when the function returns
  at line 150 and prints none.
\<close>

definition find_and_compress_pdfs ::
  "world \<Rightarrow> (path \<times> path \<Rightarrow> future_result) \<Rightarrow> path \<Rightarrow> path \<Rightarrow> summary option" where
  "find_and_compress_pdfs w worker source_dir dest_dir =
     (if \<not> source_exists w source_dir then None
      else
        let pdf_files = glob_pdf w source_dir;
            total_files = length pdf_files;
            (skipped_count, futures) = dispatch w source_dir dest_dir pdf_files 0 [];
            (processed_count, failed_count) =
               collect (map worker (as_completed w futures)) 0 0
        in Some \<lparr>printed_total = total_files, printed_processed = processed_count,
                 printed_failed = failed_count, printed_skipped = skipped_count\<rparr>)"

text \<open>
  The worker the program submits: \<open>process_pdf\<close>, which returns a value on every path.
  Each task has its own environment and sees its own state.
\<close>

definition process_pdf_future ::
  "(path \<times> path \<Rightarrow> env) \<Rightarrow> (path \<times> path \<Rightarrow> state) \<Rightarrow> path \<times> path \<Rightarrow> future_result" where
  "process_pdf_future envs states job =
     Returned (fst (process_pdf (envs job) (fst job) (snd job) (states job)))"

section \<open>Auxiliary notions of the statements\<close>

text \<open>The quality levels from \<open>q\<close> down to \<open>min_quality\<close> in steps of 5.\<close>

function levels :: "int \<Rightarrow> int \<Rightarrow> int list" where
  "levels q min_quality = (if min_quality \<le> q then q # levels (q - 5) min_quality else [])"
  by pat_completeness auto
termination
  by (relation "measure (\<lambda>(q, mn). nat (q - mn + 1))") auto

declare levels.simps [simp del]

definition attempt :: "path \<Rightarrow> path \<Rightarrow> int \<Rightarrow> cmd" where
  "attempt input_path temp_output q =
     \<lparr>jpeg_quality = q, cmd_input = input_path, cmd_output = temp_output\<rparr>"

text \<open>
  An invocation meets the ceiling when it exits with 0 and the file it wrote is at most
  \<open>target_size_mb * 1024 * 1024\<close> bytes.
\<close>

definition meets :: "rat \<Rightarrow> run_result \<Rightarrow> bool" where
  "meets target_size_mb r =
     (case r of Completed f \<Rightarrow> of_nat (st_size f) \<le> target_size_mb * 1024 * 1024 | _ \<Rightarrow> False)"

definition oversized :: "rat \<Rightarrow> run_result \<Rightarrow> bool" where
  "oversized target_size_mb r =
     (case r of Completed f \<Rightarrow> target_size_mb * 1024 * 1024 < of_nat (st_size f) | _ \<Rightarrow> False)"

text \<open>
  An attempt aborts the job when the command is missing or raises something unexpected:
  the handlers of lines 74 to 79 return \<open>False\<close>. Its standard error is undecodable when
  it exits with a nonzero status and \<open>e.stderr.decode()\<close> raises at line 66. In both cases
  \<open>compress_pdf\<close> ends at this attempt without an output: the attempt is fatal to the job.
\<close>

definition aborts :: "run_result \<Rightarrow> bool" where
  "aborts r = (r = FileNotFoundError \<or> r = OtherException)"

definition undecodable :: "run_result \<Rightarrow> bool" where
  "undecodable r = (r = CalledProcessError None)"

definition fatal :: "run_result \<Rightarrow> bool" where
  "fatal r = (aborts r \<or> undecodable r)"

text \<open>
  An invocation lets the loop go on to the next quality when it writes a file above the
  ceiling, or exits with a nonzero status and a standard error that decodes.
\<close>

definition continues :: "rat \<Rightarrow> run_result \<Rightarrow> bool" where
  "continues target_size_mb r =
     (case r of
        Completed f \<Rightarrow> target_size_mb * 1024 * 1024 < of_nat (st_size f)
      | CalledProcessError (Some _) \<Rightarrow> True
      | _ \<Rightarrow> False)"

text \<open>An invocation is completed when it exits with status 0.\<close>

definition completed :: "run_result \<Rightarrow> bool" where
  "completed r = (case r of Completed f \<Rightarrow> True | _ \<Rightarrow> False)"

text \<open>The output path of an input file: its path relative to the source, under the destination.\<close>

definition mirrored :: "path \<Rightarrow> path \<Rightarrow> path \<Rightarrow> path" where
  "mirrored source_path dest_path input_file =
     joinpath dest_path (relative_to input_file source_path)"

text \<open>
  The state after an attempt that lets the loop go on: the invocation is recorded and
  the temporary file is gone.
\<close>

definition after_call :: "path \<Rightarrow> path \<Rightarrow> int \<Rightarrow> state \<Rightarrow> state" where
  "after_call input_path temp_output q s =
     s\<lparr>calls := calls s @ [attempt input_path temp_output q],
       fs := (fs s)(temp_output := None)\<rparr>"

text \<open>
  The results of the attempts at the qualities \<open>qs\<close>, made in this order when \<open>n\<close>
  invocations came before.
\<close>

fun results :: "env \<Rightarrow> path \<Rightarrow> path \<Rightarrow> nat \<Rightarrow> int list \<Rightarrow> run_result list" where
  "results e input_path temp_output n [] = []"
| "results e input_path temp_output n (q # qs) =
     run e n (attempt input_path temp_output q) # results e input_path temp_output (Suc n) qs"

text \<open>The sizes observed at the qualities whose attempt wrote a file.\<close>

fun observed :: "(int \<times> run_result) list \<Rightarrow> (int \<times> nat) list" where
  "observed [] = []"
| "observed ((q, Completed f) # xs) = (q, st_size f) # observed xs"
| "observed ((q, _) # xs) = observed xs"

text \<open>
  What the loop did between the states \<open>s\<close> and \<open>s'\<close>: it made the attempts at the
  qualities \<open>qs\<close>, the first levels from \<open>q\<close> down; every attempt but the last let the
  loop go on; and the last one accounts for the way the loop ended.
\<close>

definition loop_trace ::
  "env \<Rightarrow> path \<Rightarrow> path \<Rightarrow> rat \<Rightarrow> int \<Rightarrow> int \<Rightarrow> state \<Rightarrow> loop_exit \<Rightarrow> state \<Rightarrow> int list \<Rightarrow> bool" where
  "loop_trace e i t tg mn q s ex s' qs =
     (calls s' = calls s @ map (attempt i t) qs \<and> prefix qs (levels q mn)
      \<and> list_all (continues tg) (butlast (results e i t (length (calls s)) qs))
      \<and> (case ex of
            Exhausted \<Rightarrow> qs = levels q mn
                          \<and> list_all (continues tg) (results e i t (length (calls s)) qs)
          | Break \<Rightarrow> qs \<noteq> [] \<and> meets tg (last (results e i t (length (calls s)) qs))
          | Return r \<Rightarrow> \<not> r \<and> qs \<noteq> []
                          \<and> aborts (last (results e i t (length (calls s)) qs))
          | Raise x \<Rightarrow> qs \<noteq> []
                          \<and> undecodable (last (results e i t (length (calls s)) qs))))"

text \<open>
  The sizes the loop observes at the qualities \<open>qs\<close> when \<open>n\<close> invocations came before:
  the pairs of a quality and the size of the file its attempt wrote.
\<close>

definition observations :: "env \<Rightarrow> path \<Rightarrow> path \<Rightarrow> nat \<Rightarrow> int list \<Rightarrow> (int \<times> nat) list" where
  "observations e i t n qs = observed (zip qs (results e i t n qs))"

section \<open>Concrete jobs\<close>

definition s0 :: state where
  "s0 = \<lparr>fs = Map.empty, log_file = [], calls = [], moves = []\<rparr>"

definition env_of :: "(nat \<Rightarrow> cmd \<Rightarrow> run_result) \<Rightarrow> env" where
  "env_of r = \<lparr>run = r, str_float = (\<lambda>x. ''1.5''), mkdir = (\<lambda>p. True),
              exists_returns = (\<lambda>p. True)\<rparr>"

definition pdf :: "nat \<Rightarrow> run_result" where
  "pdf n = Completed \<lparr>st_size = n, st_mtime = 100\<rparr>"

text \<open>Every invocation writes 1000000 bytes: the first attempt is below 1.5 MB.\<close>

definition env_fit :: env where
  "env_fit = env_of (\<lambda>n c. pdf 1000000)"

text \<open>Quality 40 gives 2000000 bytes, every lower quality 1000000 bytes.\<close>

definition env_second :: env where
  "env_second = env_of (\<lambda>n c. if jpeg_quality c = 40 then pdf 2000000 else pdf 1000000)"

text \<open>Every invocation writes 2000000 bytes: no quality meets 1.5 MB.\<close>

definition env_over :: env where
  "env_over = env_of (\<lambda>n c. pdf 2000000)"

text \<open>Every invocation exits with a nonzero status and a standard error that decodes.\<close>

definition env_fail :: env where
  "env_fail = env_of (\<lambda>n c. CalledProcessError (Some ''error''))"

text \<open>
  Every invocation exits with a nonzero status and a standard error that is not UTF-8
  (the bytes of a message in the code page of a Windows console, say).
\<close>

definition env_garbled :: env where
  "env_garbled = env_of (\<lambda>n c. CalledProcessError None)"

text \<open>The command is missing at the third invocation (quality 30).\<close>

definition env_missing :: env where
  "env_missing = env_of (\<lambda>n c. if n = 2 then FileNotFoundError else pdf 2000000)"

text \<open>
  A batch of three files under \<open>in\<close>: the output of \<open>a.pdf\<close> is newer than its input, the
  command is missing at the third invocation for \<open>b.pdf\<close>, and no quality brings
  \<open>c.pdf\<close> below 1.5 MB. The task of \<open>c.pdf\<close> completes first.
\<close>

definition w_batch :: world where
  "w_batch =
     \<lparr>source_exists = (\<lambda>p. p = ''in''),
      listing = (\<lambda>p. if p = ''in''
                     then [(''a.pdf'', \<lparr>st_size = 3000000, st_mtime = 100\<rparr>),
                           (''b.pdf'', \<lparr>st_size = 3000000, st_mtime = 100\<rparr>),
                           (''c.pdf'', \<lparr>st_size = 3000000, st_mtime = 100\<rparr>)]
                     else []),
      stat = [''out/a.pdf'' \<mapsto> \<lparr>st_size = 1000000, st_mtime = 200\<rparr>],
      finish_time = (\<lambda>job. if fst job = ''in/c.pdf'' then 1 else 2)\<rparr>"

definition envs_batch :: "path \<times> path \<Rightarrow> env" where
  "envs_batch job = (if fst job = ''in/b.pdf'' then env_missing else env_over)"

definition states_batch :: "path \<times> path \<Rightarrow> state" where
  "states_batch job = s0"

text \<open>
  A state in which outputs exist already; that of \<open>c.pdf\<close> is older than the input of the
  batch below.
\<close>

definition s_done :: state where
  "s_done = s0\<lparr>fs := [''out/a.pdf'' \<mapsto> \<lparr>st_size = 1000000, st_mtime = 200\<rparr>,
                       ''out/c.pdf'' \<mapsto> \<lparr>st_size = 1200000, st_mtime = 50\<rparr>]\<rparr>"

text \<open>A job whose destination directory cannot be created.\<close>

definition env_nodir :: env where
  "env_nodir = \<lparr>run = (\<lambda>n c. pdf 1000000), str_float = (\<lambda>x. ''1.5''), mkdir = (\<lambda>p. False),
                 exists_returns = (\<lambda>p. True)\<rparr>"

text \<open>A run whose source directory does not exist.\<close>

definition w_nosource :: world where
  "w_nosource =
     \<lparr>source_exists = (\<lambda>p. False), listing = (\<lambda>p. []), stat = Map.empty,
      finish_time = (\<lambda>job. 0)\<rparr>"

section \<open>The loop, one iteration at a time\<close>

lemma quality_loop_stop:
  "\<not> mn \<le> q \<Longrightarrow> quality_loop e i t ou tg mn q b m s = (Exhausted, b, s)"
  by (simp add: quality_loop.simps)

lemma quality_loop_step:
  "mn \<le> q \<Longrightarrow> quality_loop e i t ou tg mn q b m s =
     (case run e (length (calls s)) (attempt i t q) of
        Completed f \<Rightarrow>
          if meets tg (Completed f)
          then (Break, b, s\<lparr>calls := calls s @ [attempt i t q],
                            fs := (fs s)(t := None, ou \<mapsto> f),
                            moves := moves s @ [(t, ou)]\<rparr>)
          else if enat (st_size f) < m
          then quality_loop e i t ou tg mn (q - 5) q (enat (st_size f)) (after_call i t q s)
          else quality_loop e i t ou tg mn (q - 5) b m (after_call i t q s)
      | CalledProcessError None \<Rightarrow>
          (Raise UnicodeDecodeError, b, s\<lparr>calls := calls s @ [attempt i t q]\<rparr>)
      | CalledProcessError (Some msg) \<Rightarrow>
          quality_loop e i t ou tg mn (q - 5) b m (after_call i t q s)
      | FileNotFoundError \<Rightarrow> (Return False, b, s\<lparr>calls := calls s @ [attempt i t q]\<rparr>)
      | OtherException \<Rightarrow> (Return False, b, s\<lparr>calls := calls s @ [attempt i t q]\<rparr>))"
  by (subst quality_loop.simps)
     (simp add: subprocess_run_def attempt_def after_call_def meets_def move_def unlink_def Let_def
           split: run_result.splits option.splits)

lemma quality_induct:
  fixes mn q :: int
  assumes "\<And>q. (mn \<le> q \<Longrightarrow> P (q - 5)) \<Longrightarrow> P q"
  shows "P q"
proof (induction "nat (q - mn + 1)" arbitrary: q rule: less_induct)
  case less
  show ?case
  proof (rule assms)
    assume "mn \<le> q"
    then have "nat (q - 5 - mn + 1) < nat (q - mn + 1)" by simp
    then show "P (q - 5)" by (rule less)
  qed
qed

lemma quality_loop_log_file:
  "quality_loop e i t ou tg mn q b m s = (ex, b', s') \<Longrightarrow> log_file s' = log_file s"
proof (induction q arbitrary: b m s rule: quality_induct[where mn = mn])
  case (1 q)
  show ?case
  proof (cases "mn \<le> q")
    case False
    with "1.prems" show ?thesis by (simp add: quality_loop_stop)
  next
    case True
    note IH = "1.IH"[OF True]
    from "1.prems" True show ?thesis
      by (auto simp: quality_loop_step after_call_def split: run_result.splits option.splits if_splits dest!: IH)
  qed
qed

lemma quality_loop_moves:
  "quality_loop e i t ou tg mn q b m s = (ex, b', s') \<Longrightarrow>
     moves s' = moves s @ (if ex = Break then [(t, ou)] else [])"
proof (induction q arbitrary: b m s rule: quality_induct[where mn = mn])
  case (1 q)
  show ?case
  proof (cases "mn \<le> q")
    case False
    with "1.prems" show ?thesis by (simp add: quality_loop_stop)
  next
    case True
    note IH = "1.IH"[OF True]
    from "1.prems" True show ?thesis
      by (auto simp: quality_loop_step after_call_def split: run_result.splits option.splits if_splits dest!: IH)
  qed
qed

lemma quality_loop_frame:
  "quality_loop e i t ou tg mn q b m s = (ex, b', s') \<Longrightarrow> p \<noteq> t \<Longrightarrow> p \<noteq> ou \<Longrightarrow>
     fs s' p = fs s p"
proof (induction q arbitrary: b m s rule: quality_induct[where mn = mn])
  case (1 q)
  show ?case
  proof (cases "mn \<le> q")
    case False
    with "1.prems" show ?thesis by (simp add: quality_loop_stop)
  next
    case True
    note IH = "1.IH"[OF True]
    from "1.prems" True show ?thesis
      by (auto simp: quality_loop_step after_call_def split: run_result.splits option.splits if_splits dest!: IH)
  qed
qed

lemma quality_loop_output_kept:
  "quality_loop e i t ou tg mn q b m s = (ex, b', s') \<Longrightarrow> t \<noteq> ou \<Longrightarrow> ex \<noteq> Break \<Longrightarrow>
     fs s' ou = fs s ou"
proof (induction q arbitrary: b m s rule: quality_induct[where mn = mn])
  case (1 q)
  show ?case
  proof (cases "mn \<le> q")
    case False
    with "1.prems" show ?thesis by (simp add: quality_loop_stop)
  next
    case True
    note IH = "1.IH"[OF True]
    from "1.prems" True show ?thesis
      by (auto simp: quality_loop_step after_call_def split: run_result.splits option.splits if_splits dest!: IH)
  qed
qed

lemma levels_step: "mn \<le> q \<Longrightarrow> levels q mn = q # levels (q - 5) mn"
  by (subst levels.simps) simp

lemma levels_stop: "\<not> mn \<le> q \<Longrightarrow> levels q mn = []"
  by (subst levels.simps) simp

lemma length_results [simp]: "length (results e i t n qs) = length qs"
  by (induction qs arbitrary: n) auto

lemma results_Nil [simp]: "results e i t n qs = [] \<longleftrightarrow> qs = []"
  by (cases qs) auto

lemma not_meets_oversized: "\<not> meets tg (Completed f) \<Longrightarrow> oversized tg (Completed f)"
  by (simp add: meets_def oversized_def)

lemma loop_trace_Cons:
  assumes "loop_trace e i t tg mn (q - 5) (after_call i t q s) ex s' qs"
    and "mn \<le> q" and "continues tg (run e (length (calls s)) (attempt i t q))"
  shows "loop_trace e i t tg mn q s ex s' (q # qs)"
  using assms
  by (cases ex) (auto simp: loop_trace_def after_call_def levels_step)

lemma quality_loop_trace:
  "quality_loop e i t ou tg mn q b m s = (ex, b', s') \<Longrightarrow> \<exists>qs. loop_trace e i t tg mn q s ex s' qs"
proof (induction q arbitrary: b m s rule: quality_induct[where mn = mn])
  case (1 q)
  show ?case
  proof (cases "mn \<le> q")
    case False
    with "1.prems" have "loop_trace e i t tg mn q s ex s' []"
      by (simp add: quality_loop_stop loop_trace_def levels_stop)
    then show ?thesis ..
  next
    case True
    note IH = "1.IH"[OF True]
    show ?thesis
    proof (cases "run e (length (calls s)) (attempt i t q)")
      case (Completed f)
      show ?thesis
      proof (cases "meets tg (Completed f)")
        case m: True
        with "1.prems" True Completed have "loop_trace e i t tg mn q s ex s' [q]"
          by (auto simp: quality_loop_step loop_trace_def levels_step)
        then show ?thesis ..
      next
        case m: False
        with "1.prems" True Completed obtain b1 m1 where
          "quality_loop e i t ou tg mn (q - 5) b1 m1 (after_call i t q s) = (ex, b', s')"
          by (auto simp: quality_loop_step split: if_splits)
        from IH[OF this] obtain qs where "loop_trace e i t tg mn (q - 5) (after_call i t q s) ex s' qs" ..
        moreover have "continues tg (run e (length (calls s)) (attempt i t q))"
          using m Completed by (simp add: continues_def meets_def)
        ultimately have "loop_trace e i t tg mn q s ex s' (q # qs)"
          using True by (intro loop_trace_Cons)
        then show ?thesis ..
      qed
    next
      case (CalledProcessError stderr)
      show ?thesis
      proof (cases stderr)
        case None
        with "1.prems" True CalledProcessError have "loop_trace e i t tg mn q s ex s' [q]"
          by (auto simp: quality_loop_step loop_trace_def levels_step undecodable_def)
        then show ?thesis ..
      next
        case (Some msg)
        with "1.prems" True CalledProcessError have
          "quality_loop e i t ou tg mn (q - 5) b m (after_call i t q s) = (ex, b', s')"
          by (simp add: quality_loop_step)
        from IH[OF this] obtain qs where
          "loop_trace e i t tg mn (q - 5) (after_call i t q s) ex s' qs" ..
        moreover have "continues tg (run e (length (calls s)) (attempt i t q))"
          using CalledProcessError Some by (simp add: continues_def)
        ultimately have "loop_trace e i t tg mn q s ex s' (q # qs)"
          using True by (intro loop_trace_Cons)
        then show ?thesis ..
      qed
    next
      case FileNotFoundError
      with "1.prems" True have "loop_trace e i t tg mn q s ex s' [q]"
        by (auto simp: quality_loop_step loop_trace_def levels_step aborts_def)
      then show ?thesis ..
    next
      case OtherException
      with "1.prems" True have "loop_trace e i t tg mn q s ex s' [q]"
        by (auto simp: quality_loop_step loop_trace_def levels_step aborts_def)
      then show ?thesis ..
    qed
  qed
qed

section \<open>The remembered quality\<close>

lemma levels_40_5: "levels 40 5 = [40, 35, 30, 25, 20, 15, 10, 5]"
  by (simp add: levels_step levels_stop)

lemma levels_ge: "x \<in> set (levels q mn) \<Longrightarrow> mn \<le> x"
proof (induction q rule: quality_induct[where mn = mn])
  case (1 q)
  show ?case
  proof (cases "mn \<le> q")
    case True
    with 1 show ?thesis by (subst (asm) levels_step) auto
  next
    case False
    with 1 show ?thesis by (simp add: levels_stop)
  qed
qed

lemma observations_Completed:
  "mn \<le> q \<Longrightarrow> run e n (attempt i t q) = Completed f \<Longrightarrow>
     observations e i t n (levels q mn) = (q, st_size f) # observations e i t (Suc n) (levels (q - 5) mn)"
  by (subst levels_step, assumption) (simp add: observations_def)

lemma observations_failed:
  "mn \<le> q \<Longrightarrow> run e n (attempt i t q) = CalledProcessError stderr \<Longrightarrow>
     observations e i t n (levels q mn) = observations e i t (Suc n) (levels (q - 5) mn)"
  by (subst levels_step, assumption) (simp add: observations_def)

lemma best_step_lt:
  fixes c :: nat and m :: enat and S :: "(int \<times> nat) set"
  assumes lt: "enat c < m"
    and IH: "(b' = q \<and> (\<forall>x \<in> S. enat c \<le> enat (snd x)))
       \<or> (\<exists>sz. (b', sz) \<in> S \<and> enat sz < enat c \<and> (\<forall>x \<in> S. sz \<le> snd x))"
  shows "\<exists>sz. (b', sz) \<in> insert (q, c) S \<and> enat sz < m \<and> (\<forall>x \<in> insert (q, c) S. sz \<le> snd x)"
  using IH
proof (elim disjE conjE exE)
  assume "b' = q" "\<forall>x \<in> S. enat c \<le> enat (snd x)"
  with lt show ?thesis by (intro exI[of _ c]) simp
next
  fix sz assume B: "(b', sz) \<in> S" "enat sz < enat c" "\<forall>x \<in> S. sz \<le> snd x"
  from B(2) lt have "enat sz < m" by (rule less_trans)
  moreover from B(2) have "sz \<le> c" by simp
  ultimately show ?thesis using B(1,3) by (intro exI[of _ sz]) simp
qed

lemma best_step_ge:
  fixes c :: nat and m :: enat and S :: "(int \<times> nat) set"
  assumes ge: "\<not> enat c < m"
    and IH: "(b' = b \<and> (\<forall>x \<in> S. m \<le> enat (snd x)))
       \<or> (\<exists>sz. (b', sz) \<in> S \<and> enat sz < m \<and> (\<forall>x \<in> S. sz \<le> snd x))"
  shows "(b' = b \<and> (\<forall>x \<in> insert (q, c) S. m \<le> enat (snd x)))
       \<or> (\<exists>sz. (b', sz) \<in> insert (q, c) S \<and> enat sz < m \<and> (\<forall>x \<in> insert (q, c) S. sz \<le> snd x))"
  using IH
proof (elim disjE conjE exE)
  assume "b' = b" "\<forall>x \<in> S. m \<le> enat (snd x)"
  with ge show ?thesis by (intro disjI1) simp
next
  fix sz assume B: "(b', sz) \<in> S" "enat sz < m" "\<forall>x \<in> S. sz \<le> snd x"
  from ge have "m \<le> enat c" by simp
  with B(2) have "enat sz < enat c" by (rule less_le_trans)
  then have "sz \<le> c" by simp
  then show ?thesis using B by (intro disjI2 exI[of _ sz]) simp
qed

lemma length_calls_after_call [simp]:
  "length (calls (after_call i t q s)) = Suc (length (calls s))"
  by (simp add: after_call_def)

lemma quality_loop_best:
  "quality_loop e i t ou tg mn q b m s = (Exhausted, b', s') \<Longrightarrow>
     (b' = b \<and> (\<forall>x \<in> set (observations e i t (length (calls s)) (levels q mn)). m \<le> enat (snd x)))
     \<or> (\<exists>sz. (b', sz) \<in> set (observations e i t (length (calls s)) (levels q mn)) \<and> enat sz < m
            \<and> (\<forall>x \<in> set (observations e i t (length (calls s)) (levels q mn)). sz \<le> snd x))"
proof (induction q arbitrary: b m s rule: quality_induct[where mn = mn])
  case (1 q)
  show ?case
  proof (cases "mn \<le> q")
    case False
    with "1.prems" show ?thesis
      by (simp add: quality_loop_stop levels_stop observations_def)
  next
    case True
    note IH = "1.IH"[OF True]
    note step = "1.prems"[unfolded quality_loop_step[OF True]]
    show ?thesis
    proof (cases "run e (length (calls s)) (attempt i t q)")
      case (Completed f)
      note obs = observations_Completed[OF True Completed]
      from step Completed have nm: "\<not> meets tg (Completed f)"
        by (auto split: if_splits)
      show ?thesis
      proof (cases "enat (st_size f) < m")
        case lt: True
        with step Completed nm have
          "quality_loop e i t ou tg mn (q - 5) q (enat (st_size f)) (after_call i t q s) = (Exhausted, b', s')"
          by simp
        note ih = IH[OF this, unfolded length_calls_after_call]
        from best_step_lt[OF lt ih] show ?thesis
          unfolding obs list.set by (rule disjI2)
      next
        case ge: False
        with step Completed nm have
          "quality_loop e i t ou tg mn (q - 5) b m (after_call i t q s) = (Exhausted, b', s')"
          by simp
        note ih = IH[OF this, unfolded length_calls_after_call]
        from best_step_ge[OF ge ih] show ?thesis
          unfolding obs list.set .
      qed
    next
      case (CalledProcessError stderr)
      note obs = observations_failed[OF True CalledProcessError]
      from step CalledProcessError have
        "quality_loop e i t ou tg mn (q - 5) b m (after_call i t q s) = (Exhausted, b', s')"
        by (cases stderr) simp_all
      from IH[OF this, unfolded length_calls_after_call] show ?thesis unfolding obs .
    next
      case FileNotFoundError
      with step show ?thesis by simp
    next
      case OtherException
      with step show ?thesis by simp
    qed
  qed
qed

section \<open>Evaluating concrete jobs\<close>

lemmas run_defs = compress_pdf_def best_effort_def subprocess_run_def move_def unlink_def
  env_fit_def env_second_def env_over_def env_fail_def env_garbled_def env_missing_def env_of_def pdf_def s0_def
  with_suffix_def suffix_of_def name_of_def quality_loop.simps Let_def

lemmas log_defs = log_line_def fmt_mb_def round_half_even_def str_nat.simps digit_def

section \<open>C1: an attempt that meets the ceiling\<close>

text \<open>
  C1 says that a job in which an attempt meets the size ceiling moves the temporary file
  to the output path, stops, and returns \<open>True\<close>; with one invocation when the first
  attempt already meets it. The code does the first two and then returns \<open>False\<close>: the only
  assignment of the branch is \<open>success = True\<close> (line 48), the function tests and returns
  \<open>final_success\<close> (lines 96, 117, 121), which keeps its initial \<open>False\<close>. In the job
  below the first attempt writes 1000000 bytes, below the ceiling of 1572864: there is
  one invocation, the file is moved to the output path, and \<open>compress_pdf\<close> and the task
  \<open>process_pdf\<close> both report failure.
\<close>

theorem first_fit_is_reported_failed:
  "meets (3 / 2) (run env_fit 0 (attempt ''in/a.pdf'' ''out/a.temp.pdf'' 40))
   \<and> fst (compress_pdf env_fit ''in/a.pdf'' ''out/a.pdf'' (3 / 2) 40 5 s0) = Inr False
   \<and> calls (snd (compress_pdf env_fit ''in/a.pdf'' ''out/a.pdf'' (3 / 2) 40 5 s0))
       = [attempt ''in/a.pdf'' ''out/a.temp.pdf'' 40]
   \<and> moves (snd (compress_pdf env_fit ''in/a.pdf'' ''out/a.pdf'' (3 / 2) 40 5 s0))
       = [(''out/a.temp.pdf'', ''out/a.pdf'')]
   \<and> fs (snd (compress_pdf env_fit ''in/a.pdf'' ''out/a.pdf'' (3 / 2) 40 5 s0)) ''out/a.pdf''
       = Some \<lparr>st_size = 1000000, st_mtime = 100\<rparr>
   \<and> fst (process_pdf env_fit ''in/a.pdf'' ''out/a.pdf'' s0) = False"
  by (simp add: run_defs attempt_def meets_def process_pdf_def parent_def)

section \<open>C2: the best-effort invocation after a success in the loop\<close>

text \<open>
  C2 says that the best-effort invocation happens only when no attempt met the ceiling,
  and that no invocation follows a success in the loop. In the job below quality 40
  gives 2000000 bytes and quality 35 gives 1000000 bytes. The loop moves the file of
  quality 35 to the output path and breaks; since \<open>final_success\<close> is still \<open>False\<close> and
  quality 40 was remembered, the command runs a third time at quality 40 on the output
  path, which then holds 2000000 bytes, and a best-effort line is logged.
\<close>

theorem best_effort_follows_success_in_loop:
  "oversized (3 / 2) (run env_second 0 (attempt ''in/a.pdf'' ''out/a.temp.pdf'' 40))
   \<and> meets (3 / 2) (run env_second 1 (attempt ''in/a.pdf'' ''out/a.temp.pdf'' 35))
   \<and> fst (compress_pdf env_second ''in/a.pdf'' ''out/a.pdf'' (3 / 2) 40 5 s0) = Inr True
   \<and> calls (snd (compress_pdf env_second ''in/a.pdf'' ''out/a.pdf'' (3 / 2) 40 5 s0))
       = [attempt ''in/a.pdf'' ''out/a.temp.pdf'' 40, attempt ''in/a.pdf'' ''out/a.temp.pdf'' 35,
          attempt ''in/a.pdf'' ''out/a.pdf'' 40]
   \<and> moves (snd (compress_pdf env_second ''in/a.pdf'' ''out/a.pdf'' (3 / 2) 40 5 s0))
       = [(''out/a.temp.pdf'', ''out/a.pdf'')]
   \<and> fs (snd (compress_pdf env_second ''in/a.pdf'' ''out/a.pdf'' (3 / 2) 40 5 s0)) ''out/a.pdf''
       = Some \<lparr>st_size = 2000000, st_mtime = 100\<rparr>
   \<and> log_file (snd (compress_pdf env_second ''in/a.pdf'' ''out/a.pdf'' (3 / 2) 40 5 s0))
       = [''in/a.pdf - Compressed to 1.91 MB (target: 1.5 MB) (Best Effort)'' @ [CHR 0x0A]]"
  by (simp add: run_defs log_defs attempt_def meets_def oversized_def)

section \<open>Jobs in which no attempt ends the loop, and jobs an attempt aborts\<close>

text \<open>The temporary path differs from the output path.\<close>

lemma suffix_of_temp: "length (suffix_of (x @ ''.temp.pdf'')) \<le> 4"
  by (simp add: suffix_of_def name_of_def Let_def)

lemma with_suffix_temp_neq: "with_suffix p ''.temp.pdf'' \<noteq> p"
proof
  assume eq: "with_suffix p ''.temp.pdf'' = p"
  define x where "x = take (length p - length (suffix_of p)) p"
  from eq have p: "p = x @ ''.temp.pdf''" by (simp add: with_suffix_def x_def)
  have "length x = length p - length (suffix_of p)" by (simp add: x_def)
  moreover from p have "length p = length x + 9" by (subst p) simp
  ultimately have "9 \<le> length (suffix_of p)" by arith
  moreover from suffix_of_temp[of x] p have "length (suffix_of p) \<le> 4" by simp
  ultimately show False by arith
qed

text \<open>An attempt that lets the loop go on is followed by the rest of the loop.\<close>

lemma continues_cases:
  "continues tg r \<Longrightarrow> (\<exists>f. r = Completed f \<and> \<not> meets tg r) \<or> (\<exists>msg. r = CalledProcessError (Some msg))"
  by (auto simp: continues_def meets_def split: run_result.splits option.splits)

lemma quality_loop_continue:
  assumes "mn \<le> q" and "continues tg (run e (length (calls s)) (attempt i t q))"
    and "quality_loop e i t ou tg mn q b m s = (ex, b', s')"
  shows "\<exists>b1 m1. quality_loop e i t ou tg mn (q - 5) b1 m1 (after_call i t q s) = (ex, b', s')"
  using continues_cases[OF assms(2)] assms(3)
  by (auto simp: quality_loop_step[OF assms(1)] split: if_splits) blast+

lemma quality_loop_all_continue:
  "quality_loop e i t ou tg mn q b m s = (ex, b', s') \<Longrightarrow>
   list_all (continues tg) (results e i t (length (calls s)) (levels q mn)) \<Longrightarrow>
     ex = Exhausted \<and> calls s' = calls s @ map (attempt i t) (levels q mn)"
proof (induction q arbitrary: b m s rule: quality_induct[where mn = mn])
  case (1 q)
  show ?case
  proof (cases "mn \<le> q")
    case False
    with "1.prems" show ?thesis by (simp add: quality_loop_stop levels_stop)
  next
    case True
    note IH = "1.IH"[OF True]
    note lv = levels_step[OF True]
    from "1.prems"(2) have hd: "continues tg (run e (length (calls s)) (attempt i t q))"
      and tl: "list_all (continues tg) (results e i t (length (calls (after_call i t q s))) (levels (q - 5) mn))"
      unfolding lv by simp_all
    from quality_loop_continue[OF True hd "1.prems"(1)] obtain b1 m1 where
      "quality_loop e i t ou tg mn (q - 5) b1 m1 (after_call i t q s) = (ex, b', s')"
      by blast
    from IH[OF this tl] show ?thesis unfolding lv by (simp add: after_call_def)
  qed
qed

text \<open>An attempt reached after attempts that let the loop go on, and aborting, ends the loop.\<close>

lemma prefix_levels_Cons:
  assumes "prefix (x # xs) (levels q mn)"
  shows "mn \<le> q \<and> x = q \<and> prefix xs (levels (q - 5) mn)"
proof (cases "mn \<le> q")
  case True
  from assms show ?thesis unfolding levels_step[OF True] using True by simp
next
  case False
  from assms show ?thesis unfolding levels_stop[OF False] by simp
qed

lemma quality_loop_aborts:
  "prefix (qs @ [q]) (levels q0 mn) \<Longrightarrow>
   list_all (continues tg) (results e i t (length (calls s)) qs) \<Longrightarrow>
   aborts (run e (length (calls s) + length qs) (attempt i t q)) \<Longrightarrow>
   quality_loop e i t ou tg mn q0 b m s = (ex, b', s') \<Longrightarrow>
     ex = Return False \<and> calls s' = calls s @ map (attempt i t) (qs @ [q])"
proof (induction qs arbitrary: q0 b m s)
  case Nil
  from prefix_levels_Cons[of q "[]" q0 mn] Nil.prems(1)
  have le: "mn \<le> q0" and q: "q = q0" by simp_all
  from Nil.prems(3,4) show ?case
    by (auto simp: quality_loop_step[OF le] q aborts_def)
next
  case (Cons x qs)
  from prefix_levels_Cons[of x "qs @ [q]" q0 mn] Cons.prems(1)
  have le: "mn \<le> q0" and x: "x = q0" and pre: "prefix (qs @ [q]) (levels (q0 - 5) mn)"
    by simp_all
  from Cons.prems(2) have hd: "continues tg (run e (length (calls s)) (attempt i t q0))"
    and tl: "list_all (continues tg) (results e i t (length (calls (after_call i t q0 s))) qs)"
    by (simp_all add: x)
  from Cons.prems(3) have ft:
    "aborts (run e (length (calls (after_call i t q0 s)) + length qs) (attempt i t q))"
    by simp
  from quality_loop_continue[OF le hd Cons.prems(4)] obtain b1 m1 where
    "quality_loop e i t ou tg mn (q0 - 5) b1 m1 (after_call i t q0 s) = (ex, b', s')"
    by blast
  from Cons.IH[OF pre tl ft this] show ?case by (simp add: after_call_def x)
qed

section \<open>compress_pdf in terms of its loop\<close>

lemma compress_pdf_eq:
  assumes "quality_loop e i (with_suffix ou ''.temp.pdf'') ou tg mn mx (- 1) \<infinity> s = (ex, b', s')"
  shows "compress_pdf e i ou tg mx mn s =
     (case ex of
        Return b \<Rightarrow> (Inr b, s')
      | Raise x \<Rightarrow> (Inl x, s')
      | _ \<Rightarrow> if b' \<noteq> - 1 then best_effort e i ou tg b' s' else (Inr False, s'))"
  by (cases ex) (simp_all add: compress_pdf_def assms)

lemma best_effort_calls:
  "calls (snd (best_effort e i ou tg b s)) = calls s @ [attempt i ou b]"
  by (cases "run e (length (calls s)) (attempt i ou b)")
     (auto simp: best_effort_def subprocess_run_def attempt_def Let_def split: option.splits)

lemma compress_pdf_calls:
  assumes "quality_loop e i (with_suffix ou ''.temp.pdf'') ou tg mn mx (- 1) \<infinity> s = (ex, b', s')"
  shows "\<exists>rest. calls (snd (compress_pdf e i ou tg mx mn s)) = calls s' @ rest
           \<and> list_all (\<lambda>c. cmd_output c = ou) rest \<and> length rest \<le> 1"
proof (cases "(ex = Exhausted \<or> ex = Break) \<and> b' \<noteq> - 1")
  case True
  then have "calls (snd (compress_pdf e i ou tg mx mn s)) = calls s' @ [attempt i ou b']"
    by (auto simp: compress_pdf_eq[OF assms] best_effort_calls)
  then show ?thesis by (intro exI[of _ "[attempt i ou b']"]) (simp add: attempt_def)
next
  case False
  then have "calls (snd (compress_pdf e i ou tg mx mn s)) = calls s' @ []"
    by (cases ex) (auto simp: compress_pdf_eq[OF assms])
  then show ?thesis by (intro exI[of _ "[]"]) simp
qed

section \<open>C7: the quality levels attempted\<close>



section \<open>C5: every invocation fails\<close>

text \<open>
  C5 says that \<open>compress_pdf\<close> returns \<open>False\<close> when every invocation exits with a nonzero
  status. In the first job below every invocation does, with a standard error that is
  not UTF-8. The handler of line 65 formats its message with \<open>e.stderr.decode()\<close> before
  it removes the temporary file and lowers the quality; \<open>decode\<close> raises, and the
  exception leaves \<open>compress_pdf\<close> after the one attempt at quality 40: no value is
  returned and no lower quality is tried. No file is at the output path, the log file has
  no line, and \<open>process_pdf\<close> reports the job as failed through its own \<open>except\<close> clause.
  In the second job the standard error decodes, and \<open>compress_pdf\<close> returns \<open>False\<close> after
  the attempts at all eight levels, which is what the rest of the handler (lines 70 to
  73) and the clause of line 77, returning \<open>False\<close> for any other exception, are written
  for.
\<close>

theorem nonzero_exit_with_undecodable_stderr_raises:
  "run env_garbled 0 (attempt ''in/a.pdf'' ''out/a.temp.pdf'' 40) = CalledProcessError None
   \<and> fst (compress_pdf env_garbled ''in/a.pdf'' ''out/a.pdf'' (3 / 2) 40 5 s0)
       = Inl UnicodeDecodeError
   \<and> calls (snd (compress_pdf env_garbled ''in/a.pdf'' ''out/a.pdf'' (3 / 2) 40 5 s0))
       = [attempt ''in/a.pdf'' ''out/a.temp.pdf'' 40]
   \<and> fs (snd (compress_pdf env_garbled ''in/a.pdf'' ''out/a.pdf'' (3 / 2) 40 5 s0)) ''out/a.pdf''
       = None
   \<and> log_file (snd (compress_pdf env_garbled ''in/a.pdf'' ''out/a.pdf'' (3 / 2) 40 5 s0)) = []
   \<and> fst (process_pdf env_garbled ''in/a.pdf'' ''out/a.pdf'' s0) = False
   \<and> fst (compress_pdf env_fail ''in/a.pdf'' ''out/a.pdf'' (3 / 2) 40 5 s0) = Inr False
   \<and> calls (snd (compress_pdf env_fail ''in/a.pdf'' ''out/a.pdf'' (3 / 2) 40 5 s0))
       = map (attempt ''in/a.pdf'' ''out/a.temp.pdf'') [40, 35, 30, 25, 20, 15, 10, 5]"
  by (simp add: run_defs attempt_def process_pdf_def parent_def)

section \<open>The two loops of the walker\<close>

text \<open>
  The first loop counts the files whose output is up to date and submits the others, in
  the order of the listing; the second counts the futures that return \<open>True\<close> as
  processed and all others as failed, whatever the order of completion.
\<close>

lemma dispatch_eq:
  "dispatch w src dst files k futs =
     (k + length (filter (\<lambda>(inp, st). up_to_date w st (mirrored src dst inp)) files),
      futs @ map (\<lambda>(inp, st). (inp, mirrored src dst inp))
               (filter (\<lambda>(inp, st). \<not> up_to_date w st (mirrored src dst inp)) files))"
  by (induction files arbitrary: k futs) (auto simp: mirrored_def Let_def)

lemma collect_eq:
  "collect rs p f =
     (p + length (filter (\<lambda>r. r = Returned True) rs),
      f + length (filter (\<lambda>r. r \<noteq> Returned True) rs))"
  by (induction rs p f rule: collect.induct) auto

lemma length_filter_as_completed:
  "length (filter P (as_completed w futs)) = length (filter P futs)"
proof -
  have "length (filter P xs) = size (filter_mset P (mset xs))" for xs
    by (simp flip: mset_filter)
  then show ?thesis by (simp add: as_completed_def)
qed

lemma find_and_compress_pdfs_eq:
  assumes "source_exists w src"
  shows "find_and_compress_pdfs w worker src dst =
     Some \<lparr>printed_total = length (glob_pdf w src),
           printed_processed =
             length (filter (\<lambda>r. r = Returned True)
                       (map worker (snd (dispatch w src dst (glob_pdf w src) 0 [])))),
           printed_failed =
             length (filter (\<lambda>r. r \<noteq> Returned True)
                       (map worker (snd (dispatch w src dst (glob_pdf w src) 0 [])))),
           printed_skipped = fst (dispatch w src dst (glob_pdf w src) 0 [])\<rparr>"
  using assms
  by (simp add: find_and_compress_pdfs_def Let_def split_beta collect_eq
        length_filter_as_completed)

lemma sum_length_filter_compl':
  "length (filter P xs) + length (filter (\<lambda>x. \<not> P x) xs) = length xs"
  by (induction xs) auto

lemma dispatch_total:
  "fst (dispatch w src dst files 0 []) + length (snd (dispatch w src dst files 0 [])) = length files"
  by (simp add: dispatch_eq split_def sum_length_filter_compl')

section \<open>C8: the files skipped\<close>

text \<open>
  C8: of the files found under the source, the first loop counts as skipped those for
  which \<open>up_to_date\<close> holds of their input and their mirrored output path, and submits
  one task for each of the others and no task for a skipped one; the count is the number
  the summary prints as skipped. \<open>up_to_date\<close> holds exactly when the output path exists
  and its modification time is at least that of the input.
\<close>

theorem skipped_iff_up_to_date:
  "dispatch w source_path dest_path (glob_pdf w source_path) 0 [] =
     (length (filter (\<lambda>(input_file, input_stat).
                        up_to_date w input_stat (mirrored source_path dest_path input_file))
                (glob_pdf w source_path)),
      map (\<lambda>(input_file, input_stat). (input_file, mirrored source_path dest_path input_file))
        (filter (\<lambda>(input_file, input_stat).
                   \<not> up_to_date w input_stat (mirrored source_path dest_path input_file))
           (glob_pdf w source_path)))
   \<and> map_option printed_skipped (find_and_compress_pdfs w worker source_path dest_path) =
       (if source_exists w source_path
        then Some (length (filter (\<lambda>(input_file, input_stat).
                        up_to_date w input_stat (mirrored source_path dest_path input_file))
                (glob_pdf w source_path)))
        else None)
   \<and> (up_to_date w input_stat output_file \<longleftrightarrow>
        (\<exists>output_stat. stat w output_file = Some output_stat
            \<and> st_mtime output_stat \<ge> st_mtime input_stat))"
proof -
  have A: "dispatch w source_path dest_path (glob_pdf w source_path) 0 [] =
     (length (filter (\<lambda>(input_file, input_stat).
                        up_to_date w input_stat (mirrored source_path dest_path input_file))
                (glob_pdf w source_path)),
      map (\<lambda>(input_file, input_stat). (input_file, mirrored source_path dest_path input_file))
        (filter (\<lambda>(input_file, input_stat).
                   \<not> up_to_date w input_stat (mirrored source_path dest_path input_file))
           (glob_pdf w source_path)))"
    by (simp add: dispatch_eq)
  have B: "map_option printed_skipped (find_and_compress_pdfs w worker source_path dest_path) =
       (if source_exists w source_path
        then Some (length (filter (\<lambda>(input_file, input_stat).
                        up_to_date w input_stat (mirrored source_path dest_path input_file))
                (glob_pdf w source_path)))
        else None)"
  proof (cases "source_exists w source_path")
    case True
    then show ?thesis by (simp add: find_and_compress_pdfs_eq[OF True] A)
  next
    case False
    then show ?thesis by (simp add: find_and_compress_pdfs_def)
  qed
  have C: "up_to_date w input_stat output_file \<longleftrightarrow>
        (\<exists>output_stat. stat w output_file = Some output_stat
            \<and> st_mtime output_stat \<ge> st_mtime input_stat)"
    by (simp add: up_to_date_def split: option.splits)
  from A B C show ?thesis by blast
qed

text \<open>The instance for the batch of three files, of which the first is up to date.\<close>

lemmas batch_defs = w_batch_def glob_pdf_def joinpath_def relative_to_def mirrored_def
  up_to_date_def envs_batch_def states_batch_def

theorem skipped_iff_up_to_date_witness:
  "dispatch w_batch ''in'' ''out'' (glob_pdf w_batch ''in'') 0 [] =
     (1, [(''in/b.pdf'', ''out/b.pdf''), (''in/c.pdf'', ''out/c.pdf'')])"
  using skipped_iff_up_to_date[of w_batch "''in''" "''out''"]
  by (simp add: batch_defs)

section \<open>The batch of three files\<close>

lemma process_pdf_future_batch:
  "process_pdf_future envs_batch states_batch (''in/b.pdf'', ''out/b.pdf'') = Returned False"
  "process_pdf_future envs_batch states_batch (''in/c.pdf'', ''out/c.pdf'') = Returned True"
  by (simp_all add: process_pdf_future_def process_pdf_def parent_def envs_batch_def
        states_batch_def run_defs)

lemma find_and_compress_pdfs_batch:
  "find_and_compress_pdfs w_batch (process_pdf_future envs_batch states_batch) ''in'' ''out''
     = Some \<lparr>printed_total = 3, printed_processed = 1, printed_failed = 1, printed_skipped = 1\<rparr>"
proof -
  have d: "dispatch w_batch ''in'' ''out'' (glob_pdf w_batch ''in'') 0 [] =
     (1, [(''in/b.pdf'', ''out/b.pdf''), (''in/c.pdf'', ''out/c.pdf'')])"
    by (simp add: dispatch_eq batch_defs)
  have s: "source_exists w_batch ''in''" by (simp add: w_batch_def)
  have g: "length (glob_pdf w_batch ''in'') = 3" by (simp add: w_batch_def glob_pdf_def)
  show ?thesis
    by (simp add: find_and_compress_pdfs_eq[OF s] d g process_pdf_future_batch)
qed

section \<open>C10: the counters add up\<close>

text \<open>
  C10: a run returns without a summary only when its source directory does not exist
  (line 150, before any file is looked for). Every other run prints a summary. Its total
  is the number of files found; every file is either counted as skipped or submitted as
  one task; every task is counted once, as processed or as failed; so the three counters
  add up to the total.
\<close>

theorem counters_sum_to_total:
  "case find_and_compress_pdfs w worker source_dir dest_dir of
     None \<Rightarrow> \<not> source_exists w source_dir
   | Some sm \<Rightarrow>
       source_exists w source_dir
       \<and> printed_total sm = length (glob_pdf w source_dir)
       \<and> printed_skipped sm
           + length (snd (dispatch w source_dir dest_dir (glob_pdf w source_dir) 0 []))
           = printed_total sm
       \<and> printed_processed sm + printed_failed sm
           = length (snd (dispatch w source_dir dest_dir (glob_pdf w source_dir) 0 []))
       \<and> printed_processed sm + printed_failed sm + printed_skipped sm = printed_total sm"
proof (cases "source_exists w source_dir")
  case False
  then show ?thesis by (simp add: find_and_compress_pdfs_def)
next
  case True
  let ?jobs = "snd (dispatch w source_dir dest_dir (glob_pdf w source_dir) 0 [])"
  have "length (filter (\<lambda>r. r = Returned True) (map worker ?jobs))
        + length (filter (\<lambda>r. r \<noteq> Returned True) (map worker ?jobs)) = length ?jobs"
    using sum_length_filter_compl'[of "\<lambda>r. r = Returned True" "map worker ?jobs"] by simp
  moreover note dispatch_total[of w source_dir dest_dir "glob_pdf w source_dir"]
  ultimately show ?thesis
    unfolding find_and_compress_pdfs_eq[OF True] using True by simp
qed

text \<open>The instance for the batch of three files: one processed, one failed, one skipped.\<close>

theorem counters_sum_to_total_witness:
  "source_exists w_batch ''in''
   \<and> find_and_compress_pdfs w_batch (process_pdf_future envs_batch states_batch) ''in'' ''out''
       = Some \<lparr>printed_total = 3, printed_processed = 1, printed_failed = 1, printed_skipped = 1\<rparr>
   \<and> length (glob_pdf w_batch ''in'') = 3
   \<and> length (snd (dispatch w_batch ''in'' ''out'' (glob_pdf w_batch ''in'') 0 [])) = 2"
proof -
  have s: "source_exists w_batch ''in''" by (simp add: w_batch_def)
  from counters_sum_to_total[where w = w_batch and source_dir = "''in''" and dest_dir = "''out''"
         and worker = "process_pdf_future envs_batch states_batch"] s
  show ?thesis by (simp add: find_and_compress_pdfs_batch)
qed

section \<open>C9: exceptions stay in their task\<close>




section \<open>C6: the command is missing\<close>

text \<open>
  C6: the attempt at quality \<open>q\<close> is reached when the attempts at the levels \<open>qs\<close> before it
  all let the loop go on. When that attempt raises \<open>FileNotFoundError\<close>, \<open>compress_pdf\<close>
  returns \<open>False\<close>; the attempt at \<open>q\<close> is the last invocation of the job, so that no
  lower quality is tried and no best-effort invocation follows; the output path holds
  what it held before and the log file has no new line. When this happens in a task the
  walker submitted (the program calls \<open>compress_pdf\<close> with 1.5 MB, 40 and 5, after
  \<open>mkdir\<close> and \<open>exists\<close>, on an output path that does not exist), the future of the task
  returns \<open>False\<close>, and the run still prints its summary: the job is counted as failed,
  the tasks that return \<open>True\<close> are counted as processed, and every task is counted.
\<close>

theorem command_not_found:
  assumes "prefix (qs @ [q]) (levels max_quality min_quality)"
    and "list_all (continues target_size_mb)
           (results e input_path (with_suffix output_path ''.temp.pdf'') (length (calls s)) qs)"
    and "run e (length (calls s) + length qs)
           (attempt input_path (with_suffix output_path ''.temp.pdf'') q) = FileNotFoundError"
  shows "fst (compress_pdf e input_path output_path target_size_mb max_quality min_quality s)
           = Inr False
    \<and> calls (snd (compress_pdf e input_path output_path target_size_mb max_quality min_quality s))
         = calls s @ map (attempt input_path (with_suffix output_path ''.temp.pdf'')) (qs @ [q])
    \<and> fs (snd (compress_pdf e input_path output_path target_size_mb max_quality min_quality s))
         output_path = fs s output_path
    \<and> log_file (snd (compress_pdf e input_path output_path target_size_mb max_quality min_quality s))
         = log_file s
    \<and> (target_size_mb = 3 / 2 \<and> max_quality = 40 \<and> min_quality = 5
         \<and> mkdir e (parent output_path) \<and> exists_returns e output_path
         \<and> fs s output_path = None
         \<and> envs (input_path, output_path) = e \<and> states (input_path, output_path) = s
         \<and> source_exists w source_dir
         \<and> (input_path, output_path)
               \<in> set (snd (dispatch w source_dir dest_dir (glob_pdf w source_dir) 0 []))
        \<longrightarrow> process_pdf_future envs states (input_path, output_path) = Returned False
          \<and> (\<exists>sm. find_and_compress_pdfs w (process_pdf_future envs states) source_dir dest_dir
                      = Some sm
                \<and> 1 \<le> printed_failed sm
                \<and> printed_processed sm
                    = length (filter (\<lambda>job. process_pdf_future envs states job = Returned True)
                        (snd (dispatch w source_dir dest_dir (glob_pdf w source_dir) 0 [])))
                \<and> printed_processed sm + printed_failed sm
                    = length (snd (dispatch w source_dir dest_dir (glob_pdf w source_dir) 0 []))))"
proof -
  define t where "t = with_suffix output_path ''.temp.pdf''"
  obtain ex b' s' where eq:
    "quality_loop e input_path t output_path target_size_mb min_quality max_quality (- 1) \<infinity> s
       = (ex, b', s')"
    by (cases "quality_loop e input_path t output_path target_size_mb min_quality max_quality (- 1) \<infinity> s")
       auto
  from assms(3) have "aborts (run e (length (calls s) + length qs) (attempt input_path t q))"
    by (simp add: aborts_def t_def)
  from quality_loop_aborts[OF assms(1) assms(2)[folded t_def] this eq]
  have ex: "ex = Return False"
    and c: "calls s' = calls s @ map (attempt input_path t) (qs @ [q])"
    by simp_all
  have "t \<noteq> output_path" by (simp add: t_def with_suffix_temp_neq)
  from quality_loop_output_kept[OF eq this] ex have f: "fs s' output_path = fs s output_path"
    by simp
  from quality_loop_log_file[OF eq] have l: "log_file s' = log_file s" .
  have cp: "compress_pdf e input_path output_path target_size_mb max_quality min_quality s
              = (Inr False, s')"
    using ex by (simp add: compress_pdf_eq[OF eq[unfolded t_def]])
  have batch: "process_pdf_future envs states (input_path, output_path) = Returned False
          \<and> (\<exists>sm. find_and_compress_pdfs w (process_pdf_future envs states) source_dir dest_dir
                      = Some sm
                \<and> 1 \<le> printed_failed sm
                \<and> printed_processed sm
                    = length (filter (\<lambda>job. process_pdf_future envs states job = Returned True)
                        (snd (dispatch w source_dir dest_dir (glob_pdf w source_dir) 0 [])))
                \<and> printed_processed sm + printed_failed sm
                    = length (snd (dispatch w source_dir dest_dir (glob_pdf w source_dir) 0 [])))"
    if h: "target_size_mb = 3 / 2" "max_quality = 40" "min_quality = 5"
      "mkdir e (parent output_path)" "exists_returns e output_path" "fs s output_path = None"
      "envs (input_path, output_path) = e" "states (input_path, output_path) = s"
      "source_exists w source_dir"
      "(input_path, output_path)
         \<in> set (snd (dispatch w source_dir dest_dir (glob_pdf w source_dir) 0 []))"
  proof -
    let ?jobs = "snd (dispatch w source_dir dest_dir (glob_pdf w source_dir) 0 [])"
    let ?worker = "process_pdf_future envs states"
    from cp h(1-8) have r: "?worker (input_path, output_path) = Returned False"
      by (simp add: process_pdf_future_def process_pdf_def)
    with h(10) have "(input_path, output_path) \<in> set (filter (\<lambda>job. ?worker job \<noteq> Returned True) ?jobs)"
      by simp
    then have "filter (\<lambda>job. ?worker job \<noteq> Returned True) ?jobs \<noteq> []" by fastforce
    then have one: "1 \<le> length (filter (\<lambda>job. ?worker job \<noteq> Returned True) ?jobs)"
      by (simp add: Suc_le_eq)
    have sum: "length (filter (\<lambda>job. ?worker job = Returned True) ?jobs)
        + length (filter (\<lambda>job. ?worker job \<noteq> Returned True) ?jobs) = length ?jobs"
      by (rule sum_length_filter_compl')
    from r one sum show ?thesis
      unfolding find_and_compress_pdfs_eq[OF h(9)] by (simp add: filter_map comp_def)
  qed
  from cp c f l batch show ?thesis by (simp add: t_def)
qed

text \<open>
  The instance for \<open>b.pdf\<close> in the batch of three files: the command is missing at its
  third invocation.
\<close>

theorem command_not_found_witness:
  "prefix ([40, 35] @ [30]) (levels 40 5)
   \<and> list_all (continues (3 / 2))
        (results env_missing ''in/b.pdf'' (with_suffix ''out/b.pdf'' ''.temp.pdf'')
           (length (calls s0)) [40, 35])
   \<and> run env_missing (length (calls s0) + length [40, 35 :: int])
        (attempt ''in/b.pdf'' (with_suffix ''out/b.pdf'' ''.temp.pdf'') 30) = FileNotFoundError
   \<and> mkdir env_missing (parent ''out/b.pdf'') \<and> exists_returns env_missing ''out/b.pdf''
   \<and> fs s0 ''out/b.pdf'' = None
   \<and> envs_batch (''in/b.pdf'', ''out/b.pdf'') = env_missing
   \<and> states_batch (''in/b.pdf'', ''out/b.pdf'') = s0
   \<and> source_exists w_batch ''in''
   \<and> (''in/b.pdf'', ''out/b.pdf'')
         \<in> set (snd (dispatch w_batch ''in'' ''out'' (glob_pdf w_batch ''in'') 0 []))
   \<and> fst (compress_pdf env_missing ''in/b.pdf'' ''out/b.pdf'' (3 / 2) 40 5 s0) = Inr False
   \<and> length (calls (snd (compress_pdf env_missing ''in/b.pdf'' ''out/b.pdf'' (3 / 2) 40 5 s0))) = 3
   \<and> fs (snd (compress_pdf env_missing ''in/b.pdf'' ''out/b.pdf'' (3 / 2) 40 5 s0)) ''out/b.pdf''
        = None
   \<and> process_pdf_future envs_batch states_batch (''in/b.pdf'', ''out/b.pdf'') = Returned False
   \<and> find_and_compress_pdfs w_batch (process_pdf_future envs_batch states_batch) ''in'' ''out''
       = Some \<lparr>printed_total = 3, printed_processed = 1, printed_failed = 1, printed_skipped = 1\<rparr>"
proof -
  have h1: "prefix ([40, 35] @ [30]) (levels 40 5)" by (simp add: levels_40_5)
  have h2: "list_all (continues (3 / 2))
        (results env_missing ''in/b.pdf'' (with_suffix ''out/b.pdf'' ''.temp.pdf'')
           (length (calls s0)) [40, 35])"
    by (simp add: env_missing_def env_of_def pdf_def continues_def s0_def)
  have h3: "run env_missing (length (calls s0) + length [40, 35 :: int])
        (attempt ''in/b.pdf'' (with_suffix ''out/b.pdf'' ''.temp.pdf'') 30) = FileNotFoundError"
    by (simp add: env_missing_def env_of_def s0_def)
  have h4: "mkdir env_missing (parent ''out/b.pdf'')" "exists_returns env_missing ''out/b.pdf''"
    "fs s0 ''out/b.pdf'' = None" "envs_batch (''in/b.pdf'', ''out/b.pdf'') = env_missing"
    "states_batch (''in/b.pdf'', ''out/b.pdf'') = s0" "source_exists w_batch ''in''"
    by (simp_all add: env_missing_def env_of_def s0_def envs_batch_def states_batch_def w_batch_def)
  have h5: "(''in/b.pdf'', ''out/b.pdf'')
         \<in> set (snd (dispatch w_batch ''in'' ''out'' (glob_pdf w_batch ''in'') 0 []))"
    by (simp add: dispatch_eq batch_defs)
  from command_not_found[OF h1 h2 h3, where envs = envs_batch and states = states_batch
         and w = w_batch and source_dir = "''in''" and dest_dir = "''out''"]
    h1 h2 h3 h4 h5
  show ?thesis by (simp add: find_and_compress_pdfs_batch s0_def)
qed

section \<open>C4: no quality meets the ceiling\<close>

lemma observed_fst: "(q, sz) \<in> set (observed xs) \<Longrightarrow> q \<in> fst ` set xs"
  by (induction xs rule: observed.induct) auto

lemma observations_mem: "(q, sz) \<in> set (observations e i t n qs) \<Longrightarrow> q \<in> set qs"
  unfolding observations_def
  by (drule observed_fst) (auto dest: set_zip_leftD)

lemma oversized_continues: "oversized tg r \<Longrightarrow> continues tg r"
  by (auto simp: oversized_def continues_def split: run_result.splits)

lemma best_effort_completed:
  assumes "run e (length (calls s)) (attempt i ou b) = Completed f"
  shows "best_effort e i ou tg b s =
     (Inr True, s\<lparr>calls := calls s @ [attempt i ou b], fs := (fs s)(ou \<mapsto> f),
                   log_file := log_file s @ [log_line e i (st_size f) tg]\<rparr>)"
  using assms by (simp add: best_effort_def subprocess_run_def attempt_def Let_def)



section \<open>C3: the files a job writes\<close>

lemma best_effort_frame:
  "moves (snd (best_effort e i ou tg b s)) = moves s"
  "p \<noteq> ou \<Longrightarrow> fs (snd (best_effort e i ou tg b s)) p = fs s p"
  by (cases "run e (length (calls s)) (attempt i ou b)";
      auto simp: best_effort_def subprocess_run_def attempt_def Let_def split: option.splits)+

lemma quality_loop_calls:
  assumes "quality_loop e i t ou tg mn q b m s = (ex, b', s')"
  shows "\<exists>qs. calls s' = calls s @ map (attempt i t) qs"
  using quality_loop_trace[OF assms] by (auto simp: loop_trace_def)

lemma compress_pdf_writes:
  fixes e i ou tg mx mn s
  defines "t \<equiv> with_suffix ou ''.temp.pdf''"
  defines "s' \<equiv> snd (compress_pdf e i ou tg mx mn s)"
  shows "\<exists>qs rest ms.
      calls s' = calls s @ map (attempt i t) qs @ rest
      \<and> list_all (\<lambda>c. cmd_output c = ou) rest \<and> length rest \<le> 1
      \<and> moves s' = moves s @ ms \<and> (ms = [] \<or> ms = [(t, ou)])
      \<and> (ms = [] \<and> rest = [] \<longrightarrow> fs s' ou = fs s ou)"
proof -
  obtain ex b' sl where eq:
    "quality_loop e i t ou tg mn mx (- 1) \<infinity> s = (ex, b', sl)"
    by (cases "quality_loop e i t ou tg mn mx (- 1) \<infinity> s") auto
  note cp = compress_pdf_eq[OF eq[unfolded t_def]]
  from quality_loop_calls[OF eq] obtain qs where c: "calls sl = calls s @ map (attempt i t) qs" ..
  note mv = quality_loop_moves[OF eq]
  have ne: "t \<noteq> ou" by (simp add: t_def with_suffix_temp_neq)
  note kept = quality_loop_output_kept[OF eq ne]
  define ms where "ms = (if ex = Break then [(t, ou)] else [])"
  have msc: "ms = [] \<or> ms = [(t, ou)]" by (simp add: ms_def)
  show ?thesis
  proof (cases "(ex = Exhausted \<or> ex = Break) \<and> b' \<noteq> - 1")
    case True
    then have s': "s' = snd (best_effort e i ou tg b' sl)"
      by (auto simp: s'_def cp)
    have "calls s' = calls s @ map (attempt i t) qs @ [attempt i ou b']"
      by (simp add: s' best_effort_calls c)
    moreover have "moves s' = moves s @ ms"
      by (simp add: s' best_effort_frame mv ms_def)
    ultimately show ?thesis using msc
      by (intro exI[of _ qs] exI[of _ "[attempt i ou b']"] exI[of _ ms]) (simp add: attempt_def)
  next
    case False
    then have s': "s' = sl" by (cases ex) (auto simp: s'_def cp)
    have "calls s' = calls s @ map (attempt i t) qs @ []" by (simp add: s' c)
    moreover have "moves s' = moves s @ ms" by (simp add: s' mv ms_def)
    moreover have "ms = [] \<longrightarrow> fs s' ou = fs s ou"
      using kept by (auto simp: s' ms_def split: if_splits)
    ultimately show ?thesis using msc
      by (intro exI[of _ qs] exI[of _ "[]"] exI[of _ ms]) simp
  qed
qed

lemma compress_pdf_frame:
  assumes "p \<noteq> with_suffix ou ''.temp.pdf''" and "p \<noteq> ou"
  shows "fs (snd (compress_pdf e i ou tg mx mn s)) p = fs s p"
proof -
  obtain ex b' sl where eq:
    "quality_loop e i (with_suffix ou ''.temp.pdf'') ou tg mn mx (- 1) \<infinity> s = (ex, b', sl)"
    by (cases "quality_loop e i (with_suffix ou ''.temp.pdf'') ou tg mn mx (- 1) \<infinity> s") auto
  note fr = quality_loop_frame[OF eq assms]
  show ?thesis
    by (cases ex) (simp_all add: compress_pdf_eq[OF eq] best_effort_frame assms fr)
qed

lemma dispatch_submitted:
  assumes "job \<in> set (snd (dispatch w src dst files 0 []))"
  shows "\<exists>st. (fst job, st) \<in> set files \<and> snd job = mirrored src dst (fst job)
            \<and> \<not> up_to_date w st (snd job)"
  using assms by (auto simp: dispatch_eq)




end
